theory Spec2Isabelle
  imports Complex_Main
begin

section \<open>Binomial option pricing: the model of \<open>binomial_model.py\<close>\<close>

text \<open>
  The module has two functions, \<open>binomial_price\<close> (a Cox-Ross-Rubinstein tree pricer)
  and \<open>greeks_binomial\<close> (finite-difference sensitivities built from repeated calls of
  the pricer).

  Numbers: Python floats are modelled as exact reals (type \<open>real\<close>), so rounding,
  overflow and underflow are outside the model. The one place where IEEE arithmetic
  produces a non-number that the control flow depends on is kept: the division that
  computes the risk-neutral probability is a numpy scalar division, which returns
  \<open>inf\<close>, \<open>-inf\<close> or \<open>nan\<close> on a zero divisor instead of raising. Plain Python
  divisions (\<open>T / N\<close>, and the quotients of \<open>greeks_binomial\<close>) raise
  \<open>ZeroDivisionError\<close> on a zero divisor. The step count \<open>N\<close> is a Python int.
\<close>

subsection \<open>Values and errors\<close>

text \<open>The result of a numpy float64 division: a number, or one of the three specials.\<close>

datatype npfloat = Finite real | PosInf | NegInf | NaN

text \<open>
  The exceptions the two functions can raise. Both \<open>ValueError\<close>s of the source are
  kept apart by their message:
  \<^item> \<open>InvalidConfiguration\<close> is \<open>ValueError("T must be > 0 and N must be >= 1")\<close>;
  \<^item> \<open>ArbitrageViolation p\<close> is \<open>ValueError(f"Invalid probability p={p:.4f}. ...")\<close>,
    carrying the value of \<open>p\<close> that the message prints (with four decimals);
  \<^item> \<open>ZeroDivisionError\<close> and \<open>IndexError\<close> are Python's own;
  \<^item> \<open>BroadcastError\<close> is numpy's \<open>ValueError\<close> for operands whose shapes do not
    broadcast together.
\<close>

datatype error =
    ZeroDivisionError
  | InvalidConfiguration
  | ArbitrageViolation npfloat
  | IndexError
  | BroadcastError

subsection \<open>Python and numpy primitives\<close>

text \<open>Python's \<open>a / b\<close> on floats and ints.\<close>

definition py_div :: "real \<Rightarrow> real \<Rightarrow> error + real" where
  "py_div a b = (if b = 0 then Inl ZeroDivisionError else Inr (a / b))"

text \<open>numpy's \<open>a / b\<close> on float64 scalars: a warning, never an exception.\<close>

definition np_div :: "real \<Rightarrow> real \<Rightarrow> npfloat" where
  "np_div a b =
     (if b \<noteq> 0 then Finite (a / b)
      else if 0 < a then PosInf
      else if a < 0 then NegInf
      else NaN)"

text \<open>A slice \<open>V[a:b]\<close> with \<open>0 \<le> a \<le> b\<close>: it clips at the end of the array.\<close>

definition slice :: "real list \<Rightarrow> nat \<Rightarrow> nat \<Rightarrow> real list" where
  "slice V a b = take (b - a) (drop a V)"

text \<open>
  An elementwise binary operation on two one-dimensional arrays: the shapes must be
  equal, or one of them must have length 1 (it is then stretched).
\<close>

definition broadcast2 ::
  "(real \<Rightarrow> real \<Rightarrow> real) \<Rightarrow> real list \<Rightarrow> real list \<Rightarrow> error + real list" where
  "broadcast2 f xs ys =
     (if length xs = length ys then Inr (map2 f xs ys)
      else if length xs = 1 then Inr (map (f (hd xs)) ys)
      else if length ys = 1 then Inr (map (\<lambda>x. f x (hd ys)) xs)
      else Inl BroadcastError)"

subsection \<open>The lattice parameters\<close>

text \<open>
  Lines 28, 29 and 32 of the source: the up factor \<open>u\<close>, the down factor \<open>d\<close> and the
  risk-neutral probability \<open>p\<close>.
\<close>

definition crr_u :: "real \<Rightarrow> real \<Rightarrow> real" where
  "crr_u sigma dt = exp (sigma * sqrt dt)"

definition crr_d :: "real \<Rightarrow> real \<Rightarrow> real" where
  "crr_d sigma dt = 1 / crr_u sigma dt"

definition crr_p :: "real \<Rightarrow> real \<Rightarrow> real \<Rightarrow> real \<Rightarrow> npfloat" where
  "crr_p r q sigma dt =
     np_div (exp ((r - q) * dt) - crr_d sigma dt) (crr_u sigma dt - crr_d sigma dt)"

subsection \<open>The tree pricer\<close>

text \<open>
  The body of the backward-induction loop at step \<open>i\<close> (lines 53 to 64): the discounted
  expectation of the two slices and, for the style \<open>'amer'\<close>, the comparison with the
  payoff of immediate exercise at the nodes of step \<open>i\<close>.
\<close>

definition backward_step ::
  "real \<Rightarrow> real \<Rightarrow> real \<Rightarrow> real \<Rightarrow> real \<Rightarrow> real \<Rightarrow> string \<Rightarrow> string \<Rightarrow> nat \<Rightarrow> real list
     \<Rightarrow> error + real list" where
  "backward_step S K u d p disc option style i V =
     (case broadcast2 (+) (map ((*) p) (slice V 1 (i + 2)))
                          (map ((*) (1 - p)) (slice V 0 (i + 1))) of
        Inl e \<Rightarrow> Inl e
      | Inr W \<Rightarrow>
          (let V' = map ((*) disc) W in
           if style = ''amer'' then
             (let S_nodes = map (\<lambda>j. S * u ^ j * d ^ (i - j)) [0 ..< i + 1];
                  exercise = (if option = ''call''
                              then map (\<lambda>x. max (x - K) 0) S_nodes
                              else map (\<lambda>x. max (K - x) 0) S_nodes)
              in broadcast2 max V' exercise)
           else Inr V'))"

text \<open>
  The loop \<open>for i in range(N - 1, -1, -1)\<close>: \<open>backward \<dots> n V\<close> runs the steps
  \<open>i = n - 1, \<dots>, 0\<close> from the layer \<open>V\<close>.
\<close>

fun backward ::
  "real \<Rightarrow> real \<Rightarrow> real \<Rightarrow> real \<Rightarrow> real \<Rightarrow> real \<Rightarrow> string \<Rightarrow> string \<Rightarrow> nat \<Rightarrow> real list
     \<Rightarrow> error + real list" where
  "backward S K u d p disc option style 0 V = Inr V"
| "backward S K u d p disc option style (Suc i) V =
     (case backward_step S K u d p disc option style i V of
        Inl e \<Rightarrow> Inl e
      | Inr V' \<Rightarrow> backward S K u d p disc option style i V')"

text \<open>
  Lines 39 to 45: the prices \<open>ST\<close> of the underlying at maturity and the payoffs there.
  \<open>range(N + 1)\<close> is empty for a negative \<open>N\<close>.
\<close>

definition maturity_layer :: "real \<Rightarrow> real \<Rightarrow> real \<Rightarrow> real \<Rightarrow> int \<Rightarrow> string \<Rightarrow> real list" where
  "maturity_layer S K u d N option =
     (let ST = map (\<lambda>j. S * u ^ j * d ^ nat (N - int j)) [0 ..< nat (N + 1)]
      in if option = ''call''
         then map (\<lambda>x. max (x - K) 0) ST
         else map (\<lambda>x. max (K - x) 0) ST)"

text \<open>
  Lines 39 to 66, entered once \<open>dt\<close> and \<open>p\<close> have passed their checks: the maturity
  layer, the loop (\<open>range(N - 1, -1, -1)\<close> is empty for \<open>N \<le> 0\<close>), and
  \<open>float(V[0])\<close>, which raises \<open>IndexError\<close> on an empty array.
\<close>

definition tree_value ::
  "real \<Rightarrow> real \<Rightarrow> real \<Rightarrow> real \<Rightarrow> real \<Rightarrow> real \<Rightarrow> int \<Rightarrow> string \<Rightarrow> string \<Rightarrow> error + real" where
  "tree_value S K u d p disc N option style =
     (case backward S K u d p disc option style (nat N) (maturity_layer S K u d N option) of
        Inl e \<Rightarrow> Inl e
      | Inr [] \<Rightarrow> Inl IndexError
      | Inr (v # _) \<Rightarrow> Inr v)"

text \<open>
  \<open>binomial_price(S, K, T, r, sigma, N, option, style, q)\<close>. Any \<open>option\<close> other than
  \<open>'call'\<close> is priced as a put, any \<open>style\<close> other than \<open>'amer'\<close> as European.
\<close>

definition binomial_price ::
  "real \<Rightarrow> real \<Rightarrow> real \<Rightarrow> real \<Rightarrow> real \<Rightarrow> int \<Rightarrow> string \<Rightarrow> string \<Rightarrow> real \<Rightarrow> error + real" where
  "binomial_price S K T r sigma N option style q =
     (if N = 0 then Inl ZeroDivisionError
      else
        (let dt = T / real_of_int N in
         if dt \<le> 0 then Inl InvalidConfiguration
         else
           (let u = crr_u sigma dt;
                d = crr_d sigma dt
            in case crr_p r q sigma dt of
                 Finite p \<Rightarrow>
                   if \<not> (0 < p \<and> p < 1) then Inl (ArbitrageViolation (Finite p))
                   else tree_value S K u d p (exp (- r * dt)) N option style
               | PosInf \<Rightarrow> Inl (ArbitrageViolation PosInf)
               | NegInf \<Rightarrow> Inl (ArbitrageViolation NegInf)
               | NaN \<Rightarrow> Inl (ArbitrageViolation NaN))))"

subsection \<open>The Greeks estimator\<close>

text \<open>
  \<open>greeks_binomial\<close> calls \<open>binomial_price\<close> several times. To make the calls
  themselves observable, the model threads a log of the calls made so far: each call of
  the pricer appends its arguments to the log, and an exception stops the computation
  with the log as it stands.
\<close>

record pricer_call =
  call_S :: real
  call_K :: real
  call_T :: real
  call_r :: real
  call_sigma :: real
  call_N :: int
  call_option :: string
  call_style :: string
  call_q :: real

type_synonym 'a traced = "pricer_call list \<Rightarrow> (error + 'a) \<times> pricer_call list"

definition call_binomial_price ::
  "real \<Rightarrow> real \<Rightarrow> real \<Rightarrow> real \<Rightarrow> real \<Rightarrow> int \<Rightarrow> string \<Rightarrow> string \<Rightarrow> real \<Rightarrow> real traced" where
  "call_binomial_price S K T r sigma N option style q calls =
     (binomial_price S K T r sigma N option style q,
      calls @ [\<lparr>call_S = S, call_K = K, call_T = T, call_r = r, call_sigma = sigma,
                call_N = N, call_option = option, call_style = style, call_q = q\<rparr>])"

text \<open>A step that calls nothing, and sequencing: an exception skips the rest.\<close>

definition pure_step :: "error + 'a \<Rightarrow> 'a traced" where
  "pure_step x calls = (x, calls)"

definition then_step :: "'a traced \<Rightarrow> ('a \<Rightarrow> 'b traced) \<Rightarrow> 'b traced" where
  "then_step m f calls =
     (case m calls of
        (Inl e, calls') \<Rightarrow> (Inl e, calls')
      | (Inr x, calls') \<Rightarrow> f x calls')"

text \<open>
  The body of \<open>greeks_binomial\<close> (lines 83 to 115), statement by statement. The
  quotients are Python float divisions; the result is the dictionary of the six keys.
\<close>

definition greeks_traced ::
  "real \<Rightarrow> real \<Rightarrow> real \<Rightarrow> real \<Rightarrow> real \<Rightarrow> int \<Rightarrow> string \<Rightarrow> string \<Rightarrow> real
     \<Rightarrow> real \<Rightarrow> real \<Rightarrow> real \<Rightarrow> real \<Rightarrow> (string \<rightharpoonup> real) traced" where
  "greeks_traced S K T r sigma N option style q h_S h_sigma h_T h_r =
     then_step (call_binomial_price S K T r sigma N option style q) (\<lambda>price0.
     then_step (call_binomial_price (S + h_S) K T r sigma N option style q) (\<lambda>up.
     then_step (call_binomial_price (S - h_S) K T r sigma N option style q) (\<lambda>dn.
     then_step (pure_step (py_div (up - dn) (2 * h_S))) (\<lambda>delta.
     then_step (pure_step (py_div (up - 2 * price0 + dn) (h_S ^ 2))) (\<lambda>gamma.
     (let Tp = T + h_T; Tm = max (T - h_T) (1 / 10 ^ 6) in
     then_step (call_binomial_price S K Tp r sigma N option style q) (\<lambda>vp.
     then_step (call_binomial_price S K Tm r sigma N option style q) (\<lambda>vm.
     then_step (pure_step (py_div (vp - vm) (2 * h_T))) (\<lambda>quot.
     (let theta = quot * (- 1) in
     then_step (call_binomial_price S K T r (sigma + h_sigma) N option style q) (\<lambda>sp.
     then_step (call_binomial_price S K T r (sigma - h_sigma) N option style q) (\<lambda>sm.
     then_step (pure_step (py_div (sp - sm) (2 * h_sigma))) (\<lambda>vega.
     then_step (call_binomial_price S K T (r + h_r) sigma N option style q) (\<lambda>rp.
     then_step (call_binomial_price S K T (r - h_r) sigma N option style q) (\<lambda>rm.
     then_step (pure_step (py_div (rp - rm) (2 * h_r))) (\<lambda>rho.
     pure_step (Inr [''price'' \<mapsto> price0, ''delta'' \<mapsto> delta, ''gamma'' \<mapsto> gamma,
                     ''theta'' \<mapsto> theta, ''vega'' \<mapsto> vega, ''rho'' \<mapsto> rho])
     ))))))))))))))))"

text \<open>\<open>greeks_binomial(S, K, T, r, sigma, N, option, style, q, h_S, h_sigma, h_T, h_r)\<close>.\<close>

definition greeks_binomial ::
  "real \<Rightarrow> real \<Rightarrow> real \<Rightarrow> real \<Rightarrow> real \<Rightarrow> int \<Rightarrow> string \<Rightarrow> string \<Rightarrow> real
     \<Rightarrow> real \<Rightarrow> real \<Rightarrow> real \<Rightarrow> real \<Rightarrow> error + (string \<rightharpoonup> real)" where
  "greeks_binomial S K T r sigma N option style q h_S h_sigma h_T h_r =
     fst (greeks_traced S K T r sigma N option style q h_S h_sigma h_T h_r [])"

subsection \<open>The backward induction as the specification words it\<close>

text \<open>
  The payoff of a call, \<open>max (price - K) 0\<close>, and of a put, \<open>max (K - price) 0\<close>.
\<close>

definition payoff :: "string \<Rightarrow> real \<Rightarrow> real \<Rightarrow> real" where
  "payoff option K price =
     (if option = ''call'' then max (price - K) 0 else max (K - price) 0)"

text \<open>
  The reference definition of the European value, node by node rather than array by
  array. \<open>euro_layer \<dots> N k j\<close> is the value at node \<open>j\<close> of the layer reached after
  \<open>k\<close> backward steps, that is the layer of step \<open>i = N - k\<close>: the maturity layer holds
  the payoff at the price \<open>S \<cdot> u^j \<cdot> d^(N - j)\<close>, and each earlier layer holds
  \<open>disc \<cdot> (p \<cdot> V[j + 1] + (1 - p) \<cdot> V[j])\<close>.
\<close>

fun euro_layer ::
  "real \<Rightarrow> real \<Rightarrow> real \<Rightarrow> real \<Rightarrow> real \<Rightarrow> real \<Rightarrow> string \<Rightarrow> nat \<Rightarrow> nat \<Rightarrow> nat \<Rightarrow> real" where
  "euro_layer S K u d p disc option N 0 j = payoff option K (S * u ^ j * d ^ (N - j))"
| "euro_layer S K u d p disc option N (Suc k) j =
     disc * (p * euro_layer S K u d p disc option N k (j + 1)
             + (1 - p) * euro_layer S K u d p disc option N k j)"

text \<open>
  The reference definition of the American value: at every step \<open>i = N - Suc k\<close> before
  maturity, the value at node \<open>j\<close> is the larger of the continuation value and the
  payoff of immediate exercise at the price \<open>S \<cdot> u^j \<cdot> d^(i - j)\<close>.
\<close>

fun amer_layer ::
  "real \<Rightarrow> real \<Rightarrow> real \<Rightarrow> real \<Rightarrow> real \<Rightarrow> real \<Rightarrow> string \<Rightarrow> nat \<Rightarrow> nat \<Rightarrow> nat \<Rightarrow> real" where
  "amer_layer S K u d p disc option N 0 j = payoff option K (S * u ^ j * d ^ (N - j))"
| "amer_layer S K u d p disc option N (Suc k) j =
     max (disc * (p * amer_layer S K u d p disc option N k (j + 1)
                  + (1 - p) * amer_layer S K u d p disc option N k j))
         (payoff option K (S * u ^ j * d ^ (N - Suc k - j)))"

section \<open>Properties\<close>

subsection \<open>One backward step\<close>

lemma slice_from_1:
  "length V = i + 2 \<Longrightarrow> slice V 1 (i + 2) = map (\<lambda>j. V ! (j + 1)) [0 ..< i + 1]"
  by (rule nth_equalityI) (simp_all add: slice_def del: upt_Suc)

lemma slice_from_0:
  "length V = i + 2 \<Longrightarrow> slice V 0 (i + 1) = map (\<lambda>j. V ! j) [0 ..< i + 1]"
  by (rule nth_equalityI) (simp_all add: slice_def del: upt_Suc)

lemma broadcast2_same: "length xs = length ys \<Longrightarrow> broadcast2 f xs ys = Inr (map2 f xs ys)"
  by (simp add: broadcast2_def)

lemma map2_map_upt:
  "map2 f (map g [0 ..< n]) (map h [0 ..< n]) = map (\<lambda>j. f (g j) (h j)) [0 ..< n]"
  by (rule nth_equalityI) (simp_all del: upt_Suc)

text \<open>
  On a layer of \<open>i + 2\<close> values both slices have \<open>i + 1\<close> elements, nothing is clipped
  or stretched, and the step returns the layer of \<open>i + 1\<close> values below.
\<close>

lemma backward_step_eq:
  assumes "length V = i + 2"
  shows "backward_step S K u d p disc option style i V =
     Inr (map (\<lambda>j. if style = ''amer''
                    then max (disc * (p * V ! (j + 1) + (1 - p) * V ! j))
                             (payoff option K (S * u ^ j * d ^ (i - j)))
                    else disc * (p * V ! (j + 1) + (1 - p) * V ! j)) [0 ..< i + 1])"
  unfolding backward_step_def slice_from_1 [OF assms] slice_from_0 [OF assms]
  by (simp add: broadcast2_same map2_map_upt Let_def payoff_def comp_def del: upt_Suc)

subsection \<open>The loop computes the reference layers\<close>

lemma backward_euro:
  assumes "style \<noteq> ''amer''"
  shows "n \<le> N \<Longrightarrow> length V = n + 1 \<Longrightarrow>
         (\<And>j. j < n + 1 \<Longrightarrow> V ! j = euro_layer S K u d p disc option N (N - n) j) \<Longrightarrow>
         backward S K u d p disc option style n V = Inr [euro_layer S K u d p disc option N N 0]"
proof (induction n arbitrary: V)
  case 0
  then have "V = [V ! 0]" by (cases V) simp_all
  with "0.prems"(3) [of 0] show ?case by simp
next
  case (Suc n)
  let ?V' = "map (\<lambda>j. disc * (p * V ! (j + 1) + (1 - p) * V ! j)) [0 ..< n + 1]"
  have step: "backward_step S K u d p disc option style n V = Inr ?V'"
    using backward_step_eq [of V n S K u d p disc option style] Suc.prems(2) assms by simp
  have k: "N - n = Suc (N - Suc n)" using Suc.prems(1) by simp
  have "backward S K u d p disc option style n ?V' = Inr [euro_layer S K u d p disc option N N 0]"
  proof (rule Suc.IH)
    show "n \<le> N" using Suc.prems(1) by simp
    show "length ?V' = n + 1" by simp
    fix j assume j: "j < n + 1"
    then have "?V' ! j = disc * (p * V ! (j + 1) + (1 - p) * V ! j)"
      by (simp del: upt_Suc)
    also have "\<dots> = euro_layer S K u d p disc option N (N - n) j"
      using Suc.prems(3) [of j] Suc.prems(3) [of "j + 1"] j by (simp add: k)
    finally show "?V' ! j = euro_layer S K u d p disc option N (N - n) j" .
  qed
  with step show ?case by simp
qed

lemma backward_amer:
  "n \<le> N \<Longrightarrow> length V = n + 1 \<Longrightarrow>
   (\<And>j. j < n + 1 \<Longrightarrow> V ! j = amer_layer S K u d p disc option N (N - n) j) \<Longrightarrow>
   backward S K u d p disc option ''amer'' n V = Inr [amer_layer S K u d p disc option N N 0]"
proof (induction n arbitrary: V)
  case 0
  then have "V = [V ! 0]" by (cases V) simp_all
  with "0.prems"(3) [of 0] show ?case by simp
next
  case (Suc n)
  let ?V' = "map (\<lambda>j. max (disc * (p * V ! (j + 1) + (1 - p) * V ! j))
                           (payoff option K (S * u ^ j * d ^ (n - j)))) [0 ..< n + 1]"
  have step: "backward_step S K u d p disc option ''amer'' n V = Inr ?V'"
    using backward_step_eq [of V n S K u d p disc option "''amer''"] Suc.prems(2) by simp
  have k: "N - n = Suc (N - Suc n)" using Suc.prems(1) by simp
  have e: "N - Suc (N - Suc n) = n" using Suc.prems(1) by simp
  have "backward S K u d p disc option ''amer'' n ?V' = Inr [amer_layer S K u d p disc option N N 0]"
  proof (rule Suc.IH)
    show "n \<le> N" using Suc.prems(1) by simp
    show "length ?V' = n + 1" by simp
    fix j assume j: "j < n + 1"
    then have "?V' ! j = max (disc * (p * V ! (j + 1) + (1 - p) * V ! j))
                           (payoff option K (S * u ^ j * d ^ (n - j)))"
      by (simp del: upt_Suc)
    also have "\<dots> = amer_layer S K u d p disc option N (N - n) j"
      using Suc.prems(3) [of j] Suc.prems(3) [of "j + 1"] j by (simp add: k e)
    finally show "?V' ! j = amer_layer S K u d p disc option N (N - n) j" .
  qed
  with step show ?case by simp
qed

subsection \<open>The pricer in terms of the reference layers\<close>

lemma maturity_layer_length: "1 \<le> N \<Longrightarrow> length (maturity_layer S K u d N option) = nat N + 1"
  by (simp add: maturity_layer_def Let_def nat_add_distrib)

lemma maturity_layer_nth:
  assumes "1 \<le> N" and "j < nat N + 1"
  shows "maturity_layer S K u d N option ! j = payoff option K (S * u ^ j * d ^ (nat N - j))"
proof -
  have "j < nat (N + 1)" using assms by simp
  moreover have "nat (N - int j) = nat N - j" by simp
  ultimately show ?thesis by (simp add: maturity_layer_def Let_def payoff_def del: upt_Suc)
qed

lemma backward_maturity_euro:
  assumes "1 \<le> N" and "style \<noteq> ''amer''"
  shows "backward S K u d p disc option style (nat N) (maturity_layer S K u d N option) =
           Inr [euro_layer S K u d p disc option (nat N) (nat N) 0]"
proof (rule backward_euro [OF assms(2) order_refl maturity_layer_length [OF assms(1)]])
  fix j assume "j < nat N + 1"
  then show "maturity_layer S K u d N option ! j =
               euro_layer S K u d p disc option (nat N) (nat N - nat N) j"
    by (simp add: maturity_layer_nth [OF assms(1)])
qed

lemma backward_maturity_amer:
  assumes "1 \<le> N"
  shows "backward S K u d p disc option ''amer'' (nat N) (maturity_layer S K u d N option) =
           Inr [amer_layer S K u d p disc option (nat N) (nat N) 0]"
proof (rule backward_amer [OF order_refl maturity_layer_length [OF assms]])
  fix j assume "j < nat N + 1"
  then show "maturity_layer S K u d N option ! j =
               amer_layer S K u d p disc option (nat N) (nat N - nat N) j"
    by (simp add: maturity_layer_nth [OF assms])
qed

lemma tree_value_euro:
  assumes "1 \<le> N" "style \<noteq> ''amer''"
  shows "tree_value S K u d p disc N option style =
           Inr (euro_layer S K u d p disc option (nat N) (nat N) 0)"
  by (simp add: tree_value_def backward_maturity_euro [OF assms])

lemma tree_value_amer:
  assumes "1 \<le> N"
  shows "tree_value S K u d p disc N option ''amer'' =
           Inr (amer_layer S K u d p disc option (nat N) (nat N) 0)"
  by (simp add: tree_value_def backward_maturity_amer [OF assms])

lemma tree_value_negative: "N < 0 \<Longrightarrow> tree_value S K u d p disc N option style = Inl IndexError"
  by (simp add: tree_value_def maturity_layer_def)

lemma binomial_price_euro:
  assumes "0 < T" "1 \<le> N" "crr_p r q sigma (T / real_of_int N) = Finite p" "0 < p" "p < 1"
    and "style \<noteq> ''amer''"
  shows "binomial_price S K T r sigma N option style q =
           Inr (euro_layer S K (crr_u sigma (T / real_of_int N)) (crr_d sigma (T / real_of_int N))
                  p (exp (- r * (T / real_of_int N))) option (nat N) (nat N) 0)"
proof -
  have N0: "(N = 0) = False" using assms(2) by simp
  have dt: "(T / real_of_int N \<le> 0) = False" using assms(1,2) by (simp add: not_le)
  have pr: "(\<not> (0 < p \<and> p < 1)) = False" using assms(4,5) by simp
  show ?thesis
    unfolding binomial_price_def Let_def
    by (simp only: N0 dt pr if_False assms(3) npfloat.case tree_value_euro [OF assms(2,6)])
qed

lemma binomial_price_amer:
  assumes "0 < T" "1 \<le> N" "crr_p r q sigma (T / real_of_int N) = Finite p" "0 < p" "p < 1"
  shows "binomial_price S K T r sigma N option ''amer'' q =
           Inr (amer_layer S K (crr_u sigma (T / real_of_int N)) (crr_d sigma (T / real_of_int N))
                  p (exp (- r * (T / real_of_int N))) option (nat N) (nat N) 0)"
proof -
  have N0: "(N = 0) = False" using assms(2) by simp
  have dt: "(T / real_of_int N \<le> 0) = False" using assms(1,2) by (simp add: not_le)
  have pr: "(\<not> (0 < p \<and> p < 1)) = False" using assms(4,5) by simp
  show ?thesis
    unfolding binomial_price_def Let_def
    by (simp only: N0 dt pr if_False assms(3) npfloat.case tree_value_amer [OF assms(2)])
qed

lemma binomial_price_InrD:
  assumes "binomial_price S K T r sigma N option style q = Inr v"
  shows "0 < T \<and> 1 \<le> N \<and> (\<exists>p. crr_p r q sigma (T / real_of_int N) = Finite p \<and> 0 < p \<and> p < 1)"
proof -
  have N0: "N \<noteq> 0" using assms by (auto simp: binomial_price_def)
  have dt: "0 < T / real_of_int N"
    using assms N0 by (auto simp: binomial_price_def Let_def split: if_splits)
  obtain p where p: "crr_p r q sigma (T / real_of_int N) = Finite p" "0 < p" "p < 1"
    and tv: "tree_value S K (crr_u sigma (T / real_of_int N)) (crr_d sigma (T / real_of_int N))
               p (exp (- r * (T / real_of_int N))) N option style = Inr v"
    using assms N0 dt
    by (auto simp: binomial_price_def Let_def split: if_splits npfloat.splits)
  have "\<not> N < 0" using tv tree_value_negative by fastforce
  with N0 have N1: "1 \<le> N" by simp
  with dt have "0 < T" by (simp add: zero_less_divide_iff)
  with N1 p show ?thesis by blast
qed

subsection \<open>Arithmetic of the lattice parameters\<close>

lemma crr_u_pos: "0 < crr_u sigma dt"
  by (simp add: crr_u_def)

lemma crr_d_pos: "0 < crr_d sigma dt"
  by (simp add: crr_d_def crr_u_pos)

lemma crr_p_FiniteD:
  assumes "crr_p r q sigma dt = Finite p"
  shows "crr_u sigma dt \<noteq> crr_d sigma dt"
    and "p = (exp ((r - q) * dt) - crr_d sigma dt) / (crr_u sigma dt - crr_d sigma dt)"
  using assms by (auto simp: crr_p_def np_div_def split: if_splits)

lemma crr_expectation:
  assumes "crr_p r q sigma dt = Finite p"
  shows "p * crr_u sigma dt + (1 - p) * crr_d sigma dt = exp ((r - q) * dt)"
proof -
  let ?u = "crr_u sigma dt" and ?d = "crr_d sigma dt"
  have ne: "?u - ?d \<noteq> 0" using crr_p_FiniteD(1) [OF assms] by simp
  have "p * (?u - ?d) = exp ((r - q) * dt) - ?d"
    using crr_p_FiniteD(2) [OF assms] ne by simp
  then show ?thesis by (simp add: algebra_simps)
qed

lemma payoff_call_minus_put:
  "option \<noteq> ''call'' \<Longrightarrow> payoff ''call'' K x - payoff option K x = x - K"
  by (simp add: payoff_def max_def)

lemma euro_parity_node:
  assumes "option \<noteq> ''call''"
  shows "j + k \<le> N \<Longrightarrow>
     euro_layer S K u d p disc ''call'' N k j - euro_layer S K u d p disc option N k j =
       (disc * (p * u + (1 - p) * d)) ^ k * (S * u ^ j * d ^ (N - k - j)) - disc ^ k * K"
proof (induction k arbitrary: j)
  case 0
  then show ?case by (simp add: payoff_call_minus_put [OF assms])
next
  case (Suc k)
  let ?C = "euro_layer S K u d p disc ''call'' N k"
  let ?P = "euro_layer S K u d p disc option N k"
  let ?A = "disc * (p * u + (1 - p) * d)"
  define m where "m = N - Suc k - j"
  have e1: "N - k - (j + 1) = m" and e0: "N - k - j = Suc m"
    using Suc.prems by (simp_all add: m_def)
  have up: "?C (j + 1) - ?P (j + 1) = ?A ^ k * (S * u ^ (j + 1) * d ^ m) - disc ^ k * K"
    by (rule Suc.IH [of "j + 1", unfolded e1]) (use Suc.prems in simp)
  have dn: "?C j - ?P j = ?A ^ k * (S * u ^ j * d ^ Suc m) - disc ^ k * K"
    by (rule Suc.IH [of j, unfolded e0]) (use Suc.prems in simp)
  have "euro_layer S K u d p disc ''call'' N (Suc k) j - euro_layer S K u d p disc option N (Suc k) j
        = disc * (p * (?C (j + 1) - ?P (j + 1)) + (1 - p) * (?C j - ?P j))"
    by (simp add: algebra_simps)
  also have "\<dots> = ?A ^ Suc k * (S * u ^ j * d ^ m) - disc ^ Suc k * K"
    unfolding up dn by (simp add: algebra_simps)
  finally show ?case by (simp add: m_def)
qed

lemma amer_ge_euro_node:
  assumes "0 \<le> disc" "0 \<le> p" "p \<le> 1"
  shows "euro_layer S K u d p disc option N k j \<le> amer_layer S K u d p disc option N k j"
proof (induction k arbitrary: j)
  case 0
  show ?case by simp
next
  case (Suc k)
  let ?E = "euro_layer S K u d p disc option N k"
  let ?A = "amer_layer S K u d p disc option N k"
  have "p * ?E (j + 1) + (1 - p) * ?E j \<le> p * ?A (j + 1) + (1 - p) * ?A j"
    using assms Suc.IH [of "j + 1"] Suc.IH [of j]
    by (intro add_mono mult_left_mono) simp_all
  then have "disc * (p * ?E (j + 1) + (1 - p) * ?E j) \<le> disc * (p * ?A (j + 1) + (1 - p) * ?A j)"
    using assms(1) by (rule mult_left_mono)
  then show ?case by simp
qed

lemma crr_p_in_unit:
  assumes "0 < dt" "\<bar>r - q\<bar> * dt < sigma * sqrt dt"
  shows "\<exists>p. crr_p r q sigma dt = Finite p \<and> 0 < p \<and> p < 1"
proof -
  let ?a = "sigma * sqrt dt"
  let ?m = "exp ((r - q) * dt)"
  have "\<bar>(r - q) * dt\<bar> < ?a" using assms by (simp add: abs_mult)
  then have lo: "- ?a < (r - q) * dt" and hi: "(r - q) * dt < ?a"
    by linarith+
  have d: "crr_d sigma dt = exp (- ?a)" by (simp add: crr_d_def crr_u_def exp_minus inverse_eq_divide)
  have u: "crr_u sigma dt = exp ?a" by (simp add: crr_u_def)
  have dm: "exp (- ?a) < ?m" using lo by simp
  have mu: "?m < exp ?a" using hi by simp
  have du: "exp (- ?a) < exp ?a" using dm mu by linarith
  have ne: "exp ?a - exp (- ?a) \<noteq> 0" using du by linarith
  have "crr_p r q sigma dt = Finite ((?m - exp (- ?a)) / (exp ?a - exp (- ?a)))"
    by (simp only: crr_p_def np_div_def d u ne not_False_eq_True if_True)
  moreover have "0 < (?m - exp (- ?a)) / (exp ?a - exp (- ?a))"
    using dm du by simp
  moreover have "(?m - exp (- ?a)) / (exp ?a - exp (- ?a)) < 1"
    using mu du by simp
  ultimately show ?thesis by blast
qed

lemma exp_discount_growth: "exp (- r * x) * exp ((r - q) * x) = exp (- q * (x::real))"
  by (simp add: exp_add [symmetric] algebra_simps)

lemma discounted_growth:
  assumes "1 \<le> N"
  shows "(exp (- r * (T / real_of_int N)) * exp ((r - q) * (T / real_of_int N))) ^ nat N = exp (- q * T)"
    and "exp (- r * (T / real_of_int N)) ^ nat N = exp (- r * T)"
proof -
  have n: "real (nat N) = real_of_int N" and n0: "real_of_int N \<noteq> 0" using assms by simp_all
  have scale: "real (nat N) * (c * (T / real_of_int N)) = c * T" for c
    using n0 by (simp add: n)
  have "(exp (- r * (T / real_of_int N)) * exp ((r - q) * (T / real_of_int N))) ^ nat N
     = exp (- q * (T / real_of_int N)) ^ nat N"
    by (simp only: exp_discount_growth)
  also have "\<dots> = exp (real (nat N) * (- q * (T / real_of_int N)))"
    by (rule exp_of_nat_mult [symmetric])
  also have "\<dots> = exp (- q * T)" by (simp only: scale)
  finally show "(exp (- r * (T / real_of_int N)) * exp ((r - q) * (T / real_of_int N))) ^ nat N = exp (- q * T)" .
  have "exp (- r * (T / real_of_int N)) ^ nat N = exp (real (nat N) * (- r * (T / real_of_int N)))"
    by (rule exp_of_nat_mult [symmetric])
  also have "\<dots> = exp (- r * T)" by (simp only: scale)
  finally show "exp (- r * (T / real_of_int N)) ^ nat N = exp (- r * T)" .
qed

subsection \<open>Success, failure at the probability check, and two concrete lattices\<close>

text \<open>One step of length 1 with \<open>sigma = 1\<close> and no rates has a valid probability.\<close>

lemma unit_lattice_probability:
  "\<exists>p. crr_p 0 0 1 (1 / real_of_int 1) = Finite p \<and> 0 < p \<and> p < 1"
  by (rule crr_p_in_unit) simp_all

lemma binomial_price_succeeds:
  assumes "0 < T" and "1 \<le> N"
    and "crr_p r q sigma (T / real_of_int N) = Finite p" and "0 < p" and "p < 1"
  shows "\<exists>v. binomial_price S K T r sigma N option style q = Inr v \<and>
             backward S K (crr_u sigma (T / real_of_int N)) (crr_d sigma (T / real_of_int N))
               p (exp (- r * (T / real_of_int N))) option style (nat N)
               (maturity_layer S K (crr_u sigma (T / real_of_int N))
                  (crr_d sigma (T / real_of_int N)) N option) = Inr [v]"
proof (cases "style = ''amer''")
  case True
  then show ?thesis
    using binomial_price_amer [OF assms] backward_maturity_amer [OF assms(2)] by blast
next
  case False
  then show ?thesis
    using binomial_price_euro [OF assms False] backward_maturity_euro [OF assms(2) False] by blast
qed

lemma binomial_price_arbitrage:
  assumes "N \<noteq> 0" and "0 < T / real_of_int N"
    and "\<not> (\<exists>p. crr_p r q sigma (T / real_of_int N) = Finite p \<and> 0 < p \<and> p < 1)"
  shows "binomial_price S K T r sigma N option style q =
           Inl (ArbitrageViolation (crr_p r q sigma (T / real_of_int N)))"
proof -
  have N0: "(N = 0) = False" using assms(1) by simp
  have dt: "(T / real_of_int N \<le> 0) = False" using assms(2) by (simp add: not_le)
  show ?thesis
  proof (cases "crr_p r q sigma (T / real_of_int N)")
    case (Finite p)
    then have pr: "(\<not> (0 < p \<and> p < 1)) = True" using assms(3) by simp
    show ?thesis
      unfolding binomial_price_def Let_def
      by (simp only: N0 dt pr if_False if_True Finite npfloat.case)
  qed (simp_all only: binomial_price_def Let_def N0 dt if_False npfloat.case)
qed

lemma steep_rate_probability:
  "crr_p 2 0 1 (1 / real_of_int 1) = Finite ((exp 2 - exp (- 1)) / (exp 1 - exp (- 1)))"
  and "1 \<le> (exp 2 - exp (- 1)) / (exp 1 - exp (- 1 :: real))"
proof -
  have lt: "exp (- 1 :: real) < exp 1" by simp
  then have ne: "exp 1 - exp (- 1 :: real) \<noteq> 0" by linarith
  have d: "crr_d 1 1 = exp (- 1)" by (simp add: crr_d_def crr_u_def exp_minus inverse_eq_divide)
  have u: "crr_u 1 1 = exp 1" by (simp add: crr_u_def)
  have one: "1 / real_of_int 1 = 1" and two: "(2 - 0) * (1::real) = 2" by simp_all
  show "crr_p 2 0 1 (1 / real_of_int 1) = Finite ((exp 2 - exp (- 1)) / (exp 1 - exp (- 1)))"
    by (simp only: one crr_p_def np_div_def d u two ne not_False_eq_True if_True)
  have "exp (1::real) \<le> exp 2" by simp
  then have "exp 1 - exp (- 1 :: real) \<le> exp 2 - exp (- 1)" by linarith
  moreover have "0 < exp 1 - exp (- 1 :: real)" using lt by linarith
  ultimately show "1 \<le> (exp 2 - exp (- 1)) / (exp 1 - exp (- 1 :: real))"
    by (simp add: le_divide_eq)
qed

subsection \<open>Relations between prices, and the failing branches\<close>

lemma binomial_price_american_ge_european:
  assumes "binomial_price S K T r sigma N option ''amer'' q = Inr a"
    and "binomial_price S K T r sigma N option style q = Inr e"
    and "style \<noteq> ''amer''"
  shows "e \<le> a"
proof -
  let ?dt = "T / real_of_int N"
  from binomial_price_InrD [OF assms(1)]
  obtain p where v: "0 < T" "1 \<le> N" and p: "crr_p r q sigma ?dt = Finite p" "0 < p" "p < 1"
    by blast
  have a: "a = amer_layer S K (crr_u sigma ?dt) (crr_d sigma ?dt) p (exp (- r * ?dt)) option (nat N) (nat N) 0"
    using binomial_price_amer [OF v p, of S K option] assms(1) by simp
  have e: "e = euro_layer S K (crr_u sigma ?dt) (crr_d sigma ?dt) p (exp (- r * ?dt)) option (nat N) (nat N) 0"
    using binomial_price_euro [OF v p assms(3), of S K option] assms(2) by simp
  show ?thesis
    unfolding a e using p(2,3) by (intro amer_ge_euro_node) simp_all
qed

lemma binomial_price_parity:
  assumes "0 < T" and "1 \<le> N"
    and "crr_p r q sigma (T / real_of_int N) = Finite p" and "0 < p" and "p < 1"
    and "style \<noteq> ''amer''" and "option \<noteq> ''call''"
  shows "\<exists>C P. binomial_price S K T r sigma N ''call'' style q = Inr C \<and>
               binomial_price S K T r sigma N option style q = Inr P \<and>
               C - P = S * exp (- q * T) - K * exp (- r * T)"
proof -
  let ?dt = "T / real_of_int N"
  let ?u = "crr_u sigma ?dt" and ?d = "crr_d sigma ?dt" and ?disc = "exp (- r * ?dt)"
  let ?C = "euro_layer S K ?u ?d p ?disc ''call'' (nat N) (nat N) 0"
  let ?P = "euro_layer S K ?u ?d p ?disc option (nat N) (nat N) 0"
  have C: "binomial_price S K T r sigma N ''call'' style q = Inr ?C"
    by (rule binomial_price_euro [OF assms(1-6)])
  have P: "binomial_price S K T r sigma N option style q = Inr ?P"
    by (rule binomial_price_euro [OF assms(1-6)])
  have "?C - ?P = (?disc * (p * ?u + (1 - p) * ?d)) ^ nat N * (S * ?u ^ 0 * ?d ^ (nat N - nat N - 0))
                    - ?disc ^ nat N * K"
    by (rule euro_parity_node [OF assms(7)]) simp
  also have "\<dots> = (?disc * exp ((r - q) * ?dt)) ^ nat N * S - ?disc ^ nat N * K"
    by (simp add: crr_expectation [OF assms(3)])
  also have "\<dots> = S * exp (- q * T) - K * exp (- r * T)"
    by (simp only: discounted_growth [OF assms(2)] mult.commute)
  finally have "?C - ?P = S * exp (- q * T) - K * exp (- r * T)" .
  with C P show ?thesis by blast
qed

lemma crr_p_zero_volatility:
  "crr_p r q 0 dt = np_div (exp ((r - q) * dt) - 1) 0"
  by (simp add: crr_p_def crr_u_def crr_d_def)

lemma np_div_zero_not_Finite: "np_div a 0 \<noteq> Finite p"
  by (simp add: np_div_def)

lemma binomial_price_zero_volatility:
  assumes "0 < T" and "1 \<le> N"
  shows "binomial_price S K T r 0 N option style q =
           Inl (ArbitrageViolation (np_div (exp ((r - q) * (T / real_of_int N)) - 1) 0))"
proof -
  have "N \<noteq> 0" and "0 < T / real_of_int N" using assms by simp_all
  moreover have "\<not> (\<exists>p. crr_p r q 0 (T / real_of_int N) = Finite p \<and> 0 < p \<and> p < 1)"
    by (simp add: crr_p_zero_volatility np_div_zero_not_Finite)
  ultimately have "binomial_price S K T r 0 N option style q =
      Inl (ArbitrageViolation (crr_p r q 0 (T / real_of_int N)))"
    by (rule binomial_price_arbitrage)
  then show ?thesis by (simp only: crr_p_zero_volatility)
qed

lemma negative_unit_lattice_probability:
  "\<exists>p. crr_p 0 0 1 (- 1 / real_of_int (- 1)) = Finite p \<and> 0 < p \<and> p < 1"
  by (rule crr_p_in_unit) simp_all

lemma binomial_price_negative_inputs:
  "binomial_price 100 100 (- 1) 0 1 (- 1) ''call'' ''amer'' 0 = Inl IndexError"
proof -
  obtain p where p: "crr_p 0 0 1 (- 1 / real_of_int (- 1)) = Finite p" "0 < p" "p < 1"
    using negative_unit_lattice_probability by blast
  have N0: "((- 1 :: int) = 0) = False" by simp
  have dt: "(- 1 / real_of_int (- 1) \<le> 0) = False" by simp
  have pr: "(\<not> (0 < p \<and> p < 1)) = False" using p(2,3) by simp
  have tv: "tree_value 100 100 u d p disc (- 1) ''call'' ''amer'' = Inl IndexError" for u d disc
    by (rule tree_value_negative) simp
  show ?thesis
    unfolding binomial_price_def Let_def
    by (simp only: N0 dt pr if_False p(1) npfloat.case tv)
qed

lemma binomial_price_zero_steps:
  "binomial_price S K T r sigma 0 option style q = Inl ZeroDivisionError"
  by (simp add: binomial_price_def)

lemma binomial_price_invalid_configuration:
  "N \<noteq> 0 \<Longrightarrow> T / real_of_int N \<le> 0 \<Longrightarrow>
   binomial_price S K T r sigma N option style q = Inl InvalidConfiguration"
  by (simp add: binomial_price_def)

subsection \<open>The Greeks estimator, call by call\<close>

lemma then_step_call:
  "then_step (call_binomial_price S K T r sigma N option style q) f calls =
     (case binomial_price S K T r sigma N option style q of
        Inl e \<Rightarrow> (Inl e, calls @ [\<lparr>call_S = S, call_K = K, call_T = T, call_r = r,
                   call_sigma = sigma, call_N = N, call_option = option, call_style = style,
                   call_q = q\<rparr>])
      | Inr x \<Rightarrow> f x (calls @ [\<lparr>call_S = S, call_K = K, call_T = T, call_r = r,
                   call_sigma = sigma, call_N = N, call_option = option, call_style = style,
                   call_q = q\<rparr>]))"
  by (simp add: then_step_def call_binomial_price_def split: sum.splits)

lemma then_step_pure:
  "then_step (pure_step (py_div a b)) f calls =
     (if b = 0 then (Inl ZeroDivisionError, calls) else f (a / b) calls)"
  by (simp add: then_step_def pure_step_def py_div_def)

lemma greeks_traced_calls:
  "length (snd (greeks_traced S K T r sigma N option style q h_S h_sigma h_T h_r [])) \<le> 9 \<and>
   (\<forall>c \<in> set (snd (greeks_traced S K T r sigma N option style q h_S h_sigma h_T h_r [])).
      call_N c = N) \<and>
   (\<forall>g. greeks_binomial S K T r sigma N option style q h_S h_sigma h_T h_r = Inr g \<longrightarrow>
      length (snd (greeks_traced S K T r sigma N option style q h_S h_sigma h_T h_r [])) = 9)"
  unfolding greeks_binomial_def greeks_traced_def Let_def then_step_call then_step_pure
  by (simp add: pure_step_def split: sum.splits)


lemma greeks_binomial_theta:
  assumes "greeks_binomial S K T r sigma N option style q h_S h_sigma h_T h_r = Inr g"
  shows "\<exists>vp vm.
           binomial_price S K (T + h_T) r sigma N option style q = Inr vp \<and>
           binomial_price S K (max (T - h_T) (1 / 10 ^ 6)) r sigma N option style q = Inr vm \<and>
           g ''theta'' = Some (- ((vp - vm) / (2 * h_T)))"
  using assms
  unfolding greeks_binomial_def greeks_traced_def Let_def then_step_call then_step_pure
  by (auto simp: pure_step_def split: sum.splits if_splits)

lemma greeks_binomial_succeeds:
  assumes "\<exists>v. binomial_price S K T r sigma N option style q = Inr v"
    and "\<exists>v. binomial_price (S + h_S) K T r sigma N option style q = Inr v"
    and "\<exists>v. binomial_price (S - h_S) K T r sigma N option style q = Inr v"
    and "\<exists>v. binomial_price S K (T + h_T) r sigma N option style q = Inr v"
    and "\<exists>v. binomial_price S K (max (T - h_T) (1 / 10 ^ 6)) r sigma N option style q = Inr v"
    and "\<exists>v. binomial_price S K T r (sigma + h_sigma) N option style q = Inr v"
    and "\<exists>v. binomial_price S K T r (sigma - h_sigma) N option style q = Inr v"
    and "\<exists>v. binomial_price S K T (r + h_r) sigma N option style q = Inr v"
    and "\<exists>v. binomial_price S K T (r - h_r) sigma N option style q = Inr v"
    and "h_S \<noteq> 0" and "h_sigma \<noteq> 0" and "h_T \<noteq> 0" and "h_r \<noteq> 0"
  shows "\<exists>g. greeks_binomial S K T r sigma N option style q h_S h_sigma h_T h_r = Inr g"
proof -
  from assms(1-9) obtain price0 up dn vp vm sp sm rp rm where
    "binomial_price S K T r sigma N option style q = Inr price0"
    "binomial_price (S + h_S) K T r sigma N option style q = Inr up"
    "binomial_price (S - h_S) K T r sigma N option style q = Inr dn"
    "binomial_price S K (T + h_T) r sigma N option style q = Inr vp"
    "binomial_price S K (max (T - h_T) (1 / 10 ^ 6)) r sigma N option style q = Inr vm"
    "binomial_price S K T r (sigma + h_sigma) N option style q = Inr sp"
    "binomial_price S K T r (sigma - h_sigma) N option style q = Inr sm"
    "binomial_price S K T (r + h_r) sigma N option style q = Inr rp"
    "binomial_price S K T (r - h_r) sigma N option style q = Inr rm"
    by blast
  then show ?thesis
    unfolding greeks_binomial_def greeks_traced_def Let_def then_step_call then_step_pure
    using assms(10-13) by (simp add: pure_step_def)
qed

lemma binomial_price_succeeds_if:
  assumes "0 < T" and "1 \<le> N"
    and "\<bar>r - q\<bar> * (T / real_of_int N) < sigma * sqrt (T / real_of_int N)"
  shows "\<exists>v. binomial_price S K T r sigma N option style q = Inr v"
proof -
  have "0 < T / real_of_int N" using assms(1,2) by simp
  from crr_p_in_unit [OF this assms(3)]
  obtain p where "crr_p r q sigma (T / real_of_int N) = Finite p" "0 < p" "p < 1" by blast
  from binomial_price_succeeds [OF assms(1,2) this] show ?thesis by blast
qed

lemma short_dated_greeks_succeed:
  "\<exists>g. greeks_binomial 100 100 1 0 1 1 ''call'' ''amer'' 0 1 (1 / 2) 2 (1 / 2) = Inr g"
proof (rule greeks_binomial_succeeds)
  show "\<exists>v. binomial_price 100 100 1 0 1 1 ''call'' ''amer'' 0 = Inr v"
    by (rule binomial_price_succeeds_if) simp_all
  show "\<exists>v. binomial_price (100 + 1) 100 1 0 1 1 ''call'' ''amer'' 0 = Inr v"
    by (rule binomial_price_succeeds_if) simp_all
  show "\<exists>v. binomial_price (100 - 1) 100 1 0 1 1 ''call'' ''amer'' 0 = Inr v"
    by (rule binomial_price_succeeds_if) simp_all
  show "\<exists>v. binomial_price 100 100 (1 + 2) 0 1 1 ''call'' ''amer'' 0 = Inr v"
    by (rule binomial_price_succeeds_if) simp_all
  show "\<exists>v. binomial_price 100 100 (max (1 - 2) (1 / 10 ^ 6)) 0 1 1 ''call'' ''amer'' 0 = Inr v"
    by (rule binomial_price_succeeds_if) simp_all
  show "\<exists>v. binomial_price 100 100 1 0 (1 + 1 / 2) 1 ''call'' ''amer'' 0 = Inr v"
    by (rule binomial_price_succeeds_if) simp_all
  show "\<exists>v. binomial_price 100 100 1 0 (1 - 1 / 2) 1 ''call'' ''amer'' 0 = Inr v"
    by (rule binomial_price_succeeds_if) simp_all
  show "\<exists>v. binomial_price 100 100 1 (0 + 1 / 2) 1 1 ''call'' ''amer'' 0 = Inr v"
    by (rule binomial_price_succeeds_if) simp_all
  show "\<exists>v. binomial_price 100 100 1 (0 - 1 / 2) 1 1 ''call'' ''amer'' 0 = Inr v"
    by (rule binomial_price_succeeds_if) simp_all
qed simp_all

section \<open>The claims\<close>

subsection \<open>The tree pricer\<close>

text \<open>
  Claim C1. For a European style (any \<open>style\<close> other than \<open>'amer'\<close>), with
  \<open>T > 0\<close>, \<open>N \<ge> 1\<close> and the derived probability \<open>p\<close> strictly between 0 and 1,
  \<open>binomial_price\<close> returns the value of the reference backward induction: the
  maturity layer of the \<open>N + 1\<close> payoffs at the prices \<open>S \<cdot> u^j \<cdot> d^(N - j)\<close>, then
  \<open>N\<close> times the layer \<open>V'[j] = e^(- r \<cdot> dt) \<cdot> (p \<cdot> V[j + 1] + (1 - p) \<cdot> V[j])\<close>, and
  the single value that remains.
\<close>

theorem european_price_is_backward_induction:
  assumes "0 < T" and "1 \<le> N"
    and "crr_p r q sigma (T / real_of_int N) = Finite p" and "0 < p" and "p < 1"
    and "style \<noteq> ''amer''"
  shows "binomial_price S K T r sigma N option style q =
           Inr (euro_layer S K (crr_u sigma (T / real_of_int N)) (crr_d sigma (T / real_of_int N))
                  p (exp (- r * (T / real_of_int N))) option (nat N) (nat N) 0)"
  using assms by (rule binomial_price_euro)

text \<open>An instance: a one-step European put at the money, \<open>sigma = 1\<close>, no rates.\<close>

theorem european_price_is_backward_induction_witness:
  "\<exists>p. crr_p 0 0 1 (1 / real_of_int 1) = Finite p \<and> 0 < p \<and> p < 1 \<and>
       binomial_price 100 100 1 0 1 1 ''put'' ''euro'' 0 =
         Inr (euro_layer 100 100 (crr_u 1 (1 / real_of_int 1)) (crr_d 1 (1 / real_of_int 1))
                p (exp (- 0 * (1 / real_of_int 1))) ''put'' (nat 1) (nat 1) 0)"
proof -
  obtain p where p: "crr_p 0 0 1 (1 / real_of_int 1) = Finite p" "0 < p" "p < 1"
    using unit_lattice_probability by blast
  have "binomial_price 100 100 1 0 1 1 ''put'' ''euro'' 0 =
         Inr (euro_layer 100 100 (crr_u 1 (1 / real_of_int 1)) (crr_d 1 (1 / real_of_int 1))
                p (exp (- 0 * (1 / real_of_int 1))) ''put'' (nat 1) (nat 1) 0)"
    by (rule european_price_is_backward_induction [OF _ _ p]) simp_all
  with p show ?thesis by blast
qed

text \<open>
  Claim C2. For the American style, with \<open>T > 0\<close>, \<open>N \<ge> 1\<close> and \<open>0 < p < 1\<close>,
  \<open>binomial_price\<close> returns the value of the reference induction that, at every step
  \<open>i\<close> from \<open>N - 1\<close> down to 0 and every node \<open>j\<close> of that step, takes the larger of
  the discounted continuation value and the payoff of immediate exercise at the price
  \<open>S \<cdot> u^j \<cdot> d^(i - j)\<close>, with the payoff formula of the maturity layer.
\<close>

theorem american_price_compares_at_every_step:
  assumes "0 < T" and "1 \<le> N"
    and "crr_p r q sigma (T / real_of_int N) = Finite p" and "0 < p" and "p < 1"
  shows "binomial_price S K T r sigma N option ''amer'' q =
           Inr (amer_layer S K (crr_u sigma (T / real_of_int N)) (crr_d sigma (T / real_of_int N))
                  p (exp (- r * (T / real_of_int N))) option (nat N) (nat N) 0)"
  using assms by (rule binomial_price_amer)

text \<open>An instance: the same one-step put, American.\<close>

theorem american_price_compares_at_every_step_witness:
  "\<exists>p. crr_p 0 0 1 (1 / real_of_int 1) = Finite p \<and> 0 < p \<and> p < 1 \<and>
       binomial_price 100 100 1 0 1 1 ''put'' ''amer'' 0 =
         Inr (amer_layer 100 100 (crr_u 1 (1 / real_of_int 1)) (crr_d 1 (1 / real_of_int 1))
                p (exp (- 0 * (1 / real_of_int 1))) ''put'' (nat 1) (nat 1) 0)"
proof -
  obtain p where p: "crr_p 0 0 1 (1 / real_of_int 1) = Finite p" "0 < p" "p < 1"
    using unit_lattice_probability by blast
  have "binomial_price 100 100 1 0 1 1 ''put'' ''amer'' 0 =
         Inr (amer_layer 100 100 (crr_u 1 (1 / real_of_int 1)) (crr_d 1 (1 / real_of_int 1))
                p (exp (- 0 * (1 / real_of_int 1))) ''put'' (nat 1) (nat 1) 0)"
    by (rule american_price_compares_at_every_step [OF _ _ p]) simp_all
  with p show ?thesis by blast
qed

text \<open>
  Claim C4. When \<open>dt = T / N > 0\<close> and the derived probability \<open>p\<close> is not strictly
  between 0 and 1, \<open>binomial_price\<close> raises the \<open>ValueError\<close> of the probability
  check, and the exception carries the computed \<open>p\<close>.
\<close>

theorem invalid_probability_is_reported:
  assumes "N \<noteq> 0" and "0 < T / real_of_int N"
    and "\<not> (\<exists>p. crr_p r q sigma (T / real_of_int N) = Finite p \<and> 0 < p \<and> p < 1)"
  shows "binomial_price S K T r sigma N option style q =
           Inl (ArbitrageViolation (crr_p r q sigma (T / real_of_int N)))"
  using assms by (rule binomial_price_arbitrage)

text \<open>
  An instance: with \<open>r = 2\<close>, \<open>sigma = 1\<close> and one step of length 1 the growth factor
  \<open>e^2\<close> exceeds \<open>u = e\<close>, so \<open>p \<ge> 1\<close>, and that \<open>p\<close> is reported.
\<close>

theorem invalid_probability_is_reported_witness:
  "(1::int) \<noteq> 0 \<and> 0 < (1::real) / real_of_int 1 \<and>
   \<not> (\<exists>p. crr_p 2 0 1 (1 / real_of_int 1) = Finite p \<and> 0 < p \<and> p < 1) \<and>
   binomial_price 100 100 1 2 1 1 ''call'' ''amer'' 0 =
     Inl (ArbitrageViolation (Finite ((exp 2 - exp (- 1)) / (exp 1 - exp (- 1)))))"
proof -
  have out: "\<not> (\<exists>p. crr_p 2 0 1 (1 / real_of_int 1) = Finite p \<and> 0 < p \<and> p < 1)"
    using steep_rate_probability by auto
  have "binomial_price 100 100 1 2 1 1 ''call'' ''amer'' 0 =
          Inl (ArbitrageViolation (crr_p 2 0 1 (1 / real_of_int 1)))"
    by (rule invalid_probability_is_reported [OF _ _ out]) simp_all
  then have "binomial_price 100 100 1 2 1 1 ''call'' ''amer'' 0 =
          Inl (ArbitrageViolation (Finite ((exp 2 - exp (- 1)) / (exp 1 - exp (- 1)))))"
    by (simp only: steep_rate_probability(1))
  with out show ?thesis by simp
qed

text \<open>
  Claim C5. With \<open>T > 0\<close>, \<open>N \<ge> 1\<close> and \<open>0 < p < 1\<close>, \<open>binomial_price\<close> returns a
  price: neither \<open>ValueError\<close> is raised, at every step \<open>i\<close> the layer has \<open>i + 2\<close>
  values, so that no slice is clipped or stretched (\<open>backward_step_eq\<close>), and the loop
  ends with a layer of exactly one value, which \<open>V[0]\<close> reads. The instance below is
  \<open>N = 1\<close>.
\<close>

theorem valid_input_returns_price:
  assumes "0 < T" and "1 \<le> N"
    and "crr_p r q sigma (T / real_of_int N) = Finite p" and "0 < p" and "p < 1"
  shows "\<exists>v. binomial_price S K T r sigma N option style q = Inr v \<and>
             backward S K (crr_u sigma (T / real_of_int N)) (crr_d sigma (T / real_of_int N))
               p (exp (- r * (T / real_of_int N))) option style (nat N)
               (maturity_layer S K (crr_u sigma (T / real_of_int N))
                  (crr_d sigma (T / real_of_int N)) N option) = Inr [v]"
  using assms by (rule binomial_price_succeeds)

text \<open>An instance with \<open>N = 1\<close>: a one-step American call.\<close>

theorem valid_input_returns_price_witness:
  "\<exists>p. crr_p 0 0 1 (1 / real_of_int 1) = Finite p \<and> 0 < p \<and> p < 1 \<and>
       (\<exists>v. binomial_price 100 100 1 0 1 1 ''call'' ''amer'' 0 = Inr v \<and>
            backward 100 100 (crr_u 1 (1 / real_of_int 1)) (crr_d 1 (1 / real_of_int 1))
              p (exp (- 0 * (1 / real_of_int 1))) ''call'' ''amer'' (nat 1)
              (maturity_layer 100 100 (crr_u 1 (1 / real_of_int 1))
                 (crr_d 1 (1 / real_of_int 1)) 1 ''call'') = Inr [v])"
proof -
  obtain p where p: "crr_p 0 0 1 (1 / real_of_int 1) = Finite p" "0 < p" "p < 1"
    using unit_lattice_probability by blast
  have "\<exists>v. binomial_price 100 100 1 0 1 1 ''call'' ''amer'' 0 = Inr v \<and>
            backward 100 100 (crr_u 1 (1 / real_of_int 1)) (crr_d 1 (1 / real_of_int 1))
              p (exp (- 0 * (1 / real_of_int 1))) ''call'' ''amer'' (nat 1)
              (maturity_layer 100 100 (crr_u 1 (1 / real_of_int 1))
                 (crr_d 1 (1 / real_of_int 1)) 1 ''call'') = Inr [v]"
    by (rule valid_input_returns_price [OF _ _ p]) simp_all
  with p show ?thesis by blast
qed

text \<open>
  Claim C3. The claim is that every input with \<open>T \<le> 0\<close> or \<open>N < 1\<close> fails with the
  \<open>ValueError\<close> of the configuration check, before any tree is built. The check of
  the code is \<open>dt \<le> 0\<close> on the quotient \<open>dt = T / N\<close>, although its message reads
  "T must be > 0 and N must be >= 1". With \<open>T = -1\<close> and \<open>N = -1\<close> the quotient is 1:
  the check passes, the probability check passes, an empty maturity layer is built and
  \<open>V[0]\<close> raises \<open>IndexError\<close>. With \<open>N = 0\<close> the division itself raises
  \<open>ZeroDivisionError\<close> before the check is reached.
\<close>

theorem configuration_check_misses_negative_and_zero_steps:
  "binomial_price 100 100 (- 1) 0 1 (- 1) ''call'' ''amer'' 0 = Inl IndexError \<and>
   binomial_price 100 100 1 0 1 0 ''call'' ''amer'' 0 = Inl ZeroDivisionError"
  by (simp only: binomial_price_negative_inputs binomial_price_zero_steps)

text \<open>
  Claim C10. With \<open>sigma = 0\<close>, \<open>T > 0\<close> and \<open>N \<ge> 1\<close> the factors are \<open>u = d = 1\<close>, the
  divisor \<open>u - d\<close> of the probability is zero, the probability is \<open>inf\<close>, \<open>-inf\<close> or
  \<open>nan\<close>, and \<open>binomial_price\<close> fails at the probability check: it never returns a
  price.
\<close>

theorem zero_volatility_never_prices:
  assumes "0 < T" and "1 \<le> N"
  shows "binomial_price S K T r 0 N option style q =
           Inl (ArbitrageViolation (crr_p r q 0 (T / real_of_int N))) \<and>
         crr_u 0 (T / real_of_int N) - crr_d 0 (T / real_of_int N) = 0 \<and>
         (\<forall>p. crr_p r q 0 (T / real_of_int N) \<noteq> Finite p)"
proof -
  have "binomial_price S K T r 0 N option style q =
           Inl (ArbitrageViolation (crr_p r q 0 (T / real_of_int N)))"
    using binomial_price_zero_volatility [OF assms] by (simp only: crr_p_zero_volatility)
  moreover have "crr_u 0 (T / real_of_int N) - crr_d 0 (T / real_of_int N) = 0"
    by (simp add: crr_u_def crr_d_def)
  moreover have "\<forall>p. crr_p r q 0 (T / real_of_int N) \<noteq> Finite p"
    by (simp add: crr_p_zero_volatility np_div_zero_not_Finite)
  ultimately show ?thesis by blast
qed

text \<open>
  An instance: 200 steps over one year at a rate of 4 percent; the numerator of the
  probability is positive, so \<open>p\<close> is \<open>inf\<close>.
\<close>

theorem zero_volatility_never_prices_witness:
  "(0::real) < 1 \<and> (1::int) \<le> 200 \<and>
   binomial_price 100 100 1 (1 / 25) 0 200 ''call'' ''amer'' 0 = Inl (ArbitrageViolation PosInf)"
proof -
  have "crr_p (1 / 25) 0 0 (1 / real_of_int 200) = PosInf"
    by (simp add: crr_p_zero_volatility np_div_def)
  then show ?thesis
    using zero_volatility_never_prices [of 1 200 100 100 "1 / 25" "''call''" "''amer''" 0]
    by simp
qed

subsection \<open>Relations between prices\<close>

text \<open>
  Claim C6. Whenever the American call of \<open>binomial_price\<close> and the European call with
  the same other parameters both return, the American price is at least the European
  price, for calls and for puts.
\<close>

theorem american_at_least_european:
  assumes "binomial_price S K T r sigma N option ''amer'' q = Inr a"
    and "binomial_price S K T r sigma N option style q = Inr e"
    and "style \<noteq> ''amer''"
  shows "e \<le> a"
  using assms by (rule binomial_price_american_ge_european)

text \<open>An instance: the one-step put at the money.\<close>

theorem american_at_least_european_witness:
  "\<exists>a e. binomial_price 100 100 1 0 1 1 ''put'' ''amer'' 0 = Inr a \<and>
         binomial_price 100 100 1 0 1 1 ''put'' ''euro'' 0 = Inr e \<and>
         ''euro'' \<noteq> ''amer'' \<and> e \<le> a"
proof -
  obtain a where a: "binomial_price 100 100 1 0 1 1 ''put'' ''amer'' 0 = Inr a"
    using binomial_price_succeeds_if [of 1 1 0 0 1 100 100 "''put''" "''amer''"] by auto
  obtain e where e: "binomial_price 100 100 1 0 1 1 ''put'' ''euro'' 0 = Inr e"
    using binomial_price_succeeds_if [of 1 1 0 0 1 100 100 "''put''" "''euro''"] by auto
  have ne: "''euro'' \<noteq> ''amer''" by simp
  have "e \<le> a" by (rule american_at_least_european [OF a e ne])
  with a e ne show ?thesis by blast
qed

text \<open>
  Claim C7. For a valid input (\<open>T > 0\<close>, \<open>N \<ge> 1\<close>, \<open>0 < p < 1\<close>) the European call
  price \<open>C\<close> and the European put price \<open>P\<close> of \<open>binomial_price\<close> satisfy put-call
  parity, \<open>C - P = S \<cdot> e^(- q \<cdot> T) - K \<cdot> e^(- r \<cdot> T)\<close>, exactly over the reals.
\<close>

theorem put_call_parity:
  assumes "0 < T" and "1 \<le> N"
    and "crr_p r q sigma (T / real_of_int N) = Finite p" and "0 < p" and "p < 1"
    and "style \<noteq> ''amer''" and "option \<noteq> ''call''"
  shows "\<exists>C P. binomial_price S K T r sigma N ''call'' style q = Inr C \<and>
               binomial_price S K T r sigma N option style q = Inr P \<and>
               C - P = S * exp (- q * T) - K * exp (- r * T)"
  using assms by (rule binomial_price_parity)

text \<open>
  An instance with a rate of one half and a dividend yield of one quarter, in one step.
\<close>

theorem put_call_parity_witness:
  "\<exists>p. crr_p (1 / 2) (1 / 4) 1 (1 / real_of_int 1) = Finite p \<and> 0 < p \<and> p < 1 \<and>
       (\<exists>C P. binomial_price 100 90 1 (1 / 2) 1 1 ''call'' ''euro'' (1 / 4) = Inr C \<and>
              binomial_price 100 90 1 (1 / 2) 1 1 ''put'' ''euro'' (1 / 4) = Inr P \<and>
              C - P = 100 * exp (- (1 / 4) * 1) - 90 * exp (- (1 / 2) * 1))"
proof -
  have "\<exists>p. crr_p (1 / 2) (1 / 4) 1 (1 / real_of_int 1) = Finite p \<and> 0 < p \<and> p < 1"
    by (rule crr_p_in_unit) simp_all
  then obtain p where p: "crr_p (1 / 2) (1 / 4) 1 (1 / real_of_int 1) = Finite p" "0 < p" "p < 1"
    by blast
  have "\<exists>C P. binomial_price 100 90 1 (1 / 2) 1 1 ''call'' ''euro'' (1 / 4) = Inr C \<and>
              binomial_price 100 90 1 (1 / 2) 1 1 ''put'' ''euro'' (1 / 4) = Inr P \<and>
              C - P = 100 * exp (- (1 / 4) * 1) - 90 * exp (- (1 / 2) * 1)"
    by (rule put_call_parity [OF _ _ p]) simp_all
  with p show ?thesis by blast
qed

subsection \<open>The Greeks estimator\<close>

text \<open>
  Claim C8. Whenever \<open>greeks_binomial\<close> returns, its \<open>theta\<close> is
  \<open>- (vp - vm) / (2 \<cdot> h_T)\<close>, where \<open>vp\<close> is the price at the expiry \<open>T + h_T\<close> and
  \<open>vm\<close> the price at the expiry \<open>max (T - h_T) 1e-6\<close>: the divisor is \<open>2 \<cdot> h_T\<close>
  whether or not the lower expiry was clamped.
\<close>

theorem theta_divides_by_twice_the_time_bump:
  assumes "greeks_binomial S K T r sigma N option style q h_S h_sigma h_T h_r = Inr g"
  shows "\<exists>vp vm.
           binomial_price S K (T + h_T) r sigma N option style q = Inr vp \<and>
           binomial_price S K (max (T - h_T) (1 / 10 ^ 6)) r sigma N option style q = Inr vm \<and>
           g ''theta'' = Some (- ((vp - vm) / (2 * h_T)))"
  using assms by (rule greeks_binomial_theta)

text \<open>
  An instance where the lower expiry is clamped: \<open>T = 1\<close> and \<open>h_T = 2\<close>, so that
  \<open>vm\<close> is the price at the expiry \<open>1e-6\<close>, and the divisor is still \<open>2 \<cdot> 2\<close>.
\<close>

theorem theta_divides_by_twice_the_time_bump_witness:
  "\<exists>g vp vm.
     greeks_binomial 100 100 1 0 1 1 ''call'' ''amer'' 0 1 (1 / 2) 2 (1 / 2) = Inr g \<and>
     binomial_price 100 100 (1 + 2) 0 1 1 ''call'' ''amer'' 0 = Inr vp \<and>
     binomial_price 100 100 (1 / 10 ^ 6) 0 1 1 ''call'' ''amer'' 0 = Inr vm \<and>
     g ''theta'' = Some (- ((vp - vm) / (2 * 2)))"
proof -
  obtain g where g: "greeks_binomial 100 100 1 0 1 1 ''call'' ''amer'' 0 1 (1 / 2) 2 (1 / 2) = Inr g"
    using short_dated_greeks_succeed by blast
  have clamp: "max (1 - 2) (1 / 10 ^ 6) = (1 / 10 ^ 6 :: real)" by simp
  from theta_divides_by_twice_the_time_bump [OF g]
  obtain vp vm where
    "binomial_price 100 100 (1 + 2) 0 1 1 ''call'' ''amer'' 0 = Inr vp"
    "binomial_price 100 100 (max (1 - 2) (1 / 10 ^ 6)) 0 1 1 ''call'' ''amer'' 0 = Inr vm"
    "g ''theta'' = Some (- ((vp - vm) / (2 * 2)))"
    by blast
  with g show ?thesis unfolding clamp by blast
qed

text \<open>
  Claim C9. The claim is that every invocation of \<open>greeks_binomial\<close> makes exactly 7
  calls of \<open>binomial_price\<close>. The code makes nine: the base price and two bumped prices
  for each of \<open>S\<close>, \<open>T\<close>, \<open>sigma\<close> and \<open>r\<close>. The invocation below returns, and its log
  does not have 7 entries.
\<close>

theorem greeks_make_nine_calls_counterexample:
  "\<not> length (snd (greeks_traced 100 100 1 0 1 1 ''call'' ''amer'' 0 1 (1 / 2) 2 (1 / 2) [])) = 7"
proof -
  obtain g where "greeks_binomial 100 100 1 0 1 1 ''call'' ''amer'' 0 1 (1 / 2) 2 (1 / 2) = Inr g"
    using short_dated_greeks_succeed by blast
  then have "length (snd (greeks_traced 100 100 1 0 1 1 ''call'' ''amer'' 0 1 (1 / 2) 2 (1 / 2) [])) = 9"
    using greeks_traced_calls [of 100 100 1 0 1 1 "''call''" "''amer''" 0 1 "1 / 2" 2 "1 / 2"]
    by blast
  then show ?thesis by simp
qed

text \<open>
  Claim C9, as amended. An invocation of \<open>greeks_binomial\<close> that returns has made
  exactly nine calls of \<open>binomial_price\<close>; an invocation that raises has made at most
  nine; and every call made has the step count \<open>N\<close> of the invocation.
\<close>

theorem greeks_make_nine_calls:
  "length (snd (greeks_traced S K T r sigma N option style q h_S h_sigma h_T h_r [])) \<le> 9 \<and>
   (\<forall>c \<in> set (snd (greeks_traced S K T r sigma N option style q h_S h_sigma h_T h_r [])).
      call_N c = N) \<and>
   (\<forall>g. greeks_binomial S K T r sigma N option style q h_S h_sigma h_T h_r = Inr g \<longrightarrow>
      length (snd (greeks_traced S K T r sigma N option style q h_S h_sigma h_T h_r [])) = 9)"
  by (rule greeks_traced_calls)

text \<open>An instance: the invocation above returns, after nine calls with \<open>N = 1\<close>.\<close>

theorem greeks_make_nine_calls_witness:
  "(\<exists>g. greeks_binomial 100 100 1 0 1 1 ''call'' ''amer'' 0 1 (1 / 2) 2 (1 / 2) = Inr g) \<and>
   map call_N (snd (greeks_traced 100 100 1 0 1 1 ''call'' ''amer'' 0 1 (1 / 2) 2 (1 / 2) []))
     = replicate 9 1"
proof -
  let ?calls = "snd (greeks_traced 100 100 1 0 1 1 ''call'' ''amer'' 0 1 (1 / 2) 2 (1 / 2) [])"
  note nine = greeks_make_nine_calls [of 100 100 1 0 1 1 "''call''" "''amer''" 0 1 "1 / 2" 2 "1 / 2"]
  have ok: "\<exists>g. greeks_binomial 100 100 1 0 1 1 ''call'' ''amer'' 0 1 (1 / 2) 2 (1 / 2) = Inr g"
    by (rule short_dated_greeks_succeed)
  with nine have len: "length ?calls = 9" by blast
  from nine have "map call_N ?calls = map (\<lambda>c. 1) ?calls" by (intro map_cong) auto
  also have "\<dots> = replicate 9 1" by (simp only: map_replicate_const len)
  finally show ?thesis using ok by blast
qed

end
